theory Spec2Isabelle
  imports Main "HOL-Library.Word"
begin

section \<open>JavaScript strings\<close>

text \<open>
  A JavaScript string is a sequence of UTF-16 code units. The boundary marker of the
  source, the bullet character, is the single code unit U+2022, which a list of 8-bit
  characters cannot hold, so texts are lists of 16-bit words. An ASCII literal of the
  source is written \<open>str ''...''\<close>.
\<close>

type_synonym jsstring = "16 word list"

definition str :: "string \<Rightarrow> jsstring" where
  "str cs = map of_char cs"

definition bullet :: "16 word" where
  "bullet = 0x2022"

text \<open>
  The code units that \<open>String.prototype.trim\<close> strips: the WhiteSpace and LineTerminator
  productions of ECMAScript (TAB, LF, VT, FF, CR, SP, NBSP, U+1680, U+2000 to U+200A,
  LS, PS, U+202F, U+205F, U+3000 and the byte order mark).
\<close>

definition js_whitespace :: "16 word \<Rightarrow> bool" where
  "js_whitespace c \<longleftrightarrow>
     c \<in> set [0x0009, 0x000A, 0x000B, 0x000C, 0x000D, 0x0020, 0x00A0, 0x1680,
              0x2000, 0x2001, 0x2002, 0x2003, 0x2004, 0x2005, 0x2006, 0x2007,
              0x2008, 0x2009, 0x200A, 0x2028, 0x2029, 0x202F, 0x205F, 0x3000, 0xFEFF]"

text \<open>\<open>s.trim()\<close>: whitespace removed at both ends.\<close>

definition js_trim :: "jsstring \<Rightarrow> jsstring" where
  "js_trim s = dropWhile js_whitespace (rev (dropWhile js_whitespace (rev s)))"

text \<open>\<open>s.slice(-1)\<close>: the last code unit as a string, the empty string for the empty string.\<close>

definition slice_last :: "jsstring \<Rightarrow> jsstring" where
  "slice_last s = (case rev s of [] \<Rightarrow> [] | c # _ \<Rightarrow> [c])"

section \<open>The session object\<close>

text \<open>One message of \<open>userContext\<close>: the object \<open>{ role, content }\<close>.\<close>

record turn =
  role :: jsstring
  content :: jsstring

text \<open>
  A value that is thrown. The provider's failures are opaque to the session, which only
  passes them on; they are told apart by a number. \<open>TypeError\<close> is what reading
  \<open>finish_reason\<close> of an undefined \<open>choices[0]\<close> throws.
\<close>

datatype error = ProviderError nat | TypeError

text \<open>
  The calls of \<open>this.emit\<close>. \<open>GptReply i t sid n\<close> is
  \<open>emit("gptreply", {partialResponseIndex: i, partialResponse: t, callSid: sid}, n)\<close>
  and \<open>ErrorEvent e\<close> is \<open>emit("error", e)\<close>. An \<open>emit\<close> hands the event to the
  listeners of its name; \<open>emit("error", e)\<close> throws \<open>e\<close> when no listener of
  \<open>"error"\<close> is attached.
\<close>

datatype event = GptReply nat jsstring "jsstring option" nat | ErrorEvent error

text \<open>
  The fields of \<open>GptService\<close>, and two logs that make its effects observable: \<open>emitted\<close>,
  the events emitted so far in order, and \<open>slept\<close>, the delays in milliseconds the
  session has waited between attempts. Of the \<open>EventEmitter\<close> that the class extends, the
  session keeps \<open>listeners\<close>: the event name of each listener the host has attached. The
  listeners themselves belong to the host and are taken to return normally. The counter
  stays in the range where JavaScript numbers are exact integers. The OpenAI client is
  the \<open>provider\<close> parameter of \<open>completion\<close> below.
\<close>

record session =
  userContext :: "turn list"
  partialResponseIndex :: nat
  callSid :: "jsstring option"
  isProcessing :: bool
  maxRetries :: nat
  listeners :: "jsstring list"
  emitted :: "event list"
  slept :: "nat list"

definition system_turn :: turn where
  "system_turn = \<lparr>role = str ''system'',
     content = str ''You can only talk in 8 words max. Your name is Aiden Suh. You are from South Korea. You are a student at the University of Waterloo.''\<rparr>"

definition greeting_turn :: turn where
  "greeting_turn = \<lparr>role = str ''assistant'', content = str ''Hello!''\<rparr>"

definition constructor :: session where
  "constructor = \<lparr>userContext = [system_turn, greeting_turn],
     partialResponseIndex = 0, callSid = None, isProcessing = False, maxRetries = 3,
     listeners = [], emitted = [], slept = []\<rparr>"

text \<open>
  The two methods of \<open>EventEmitter\<close> that change the listeners: \<open>addListener\<close> (also
  called \<open>on\<close>), by which the host subscribes to an event, and \<open>removeAllListeners\<close>.
\<close>

definition addListener :: "jsstring \<Rightarrow> session \<Rightarrow> session" where
  "addListener eventName s = s\<lparr>listeners := listeners s @ [eventName]\<rparr>"

definition removeAllListeners :: "session \<Rightarrow> session" where
  "removeAllListeners s = s\<lparr>listeners := []\<rparr>"

definition setCallSid :: "jsstring \<Rightarrow> session \<Rightarrow> session" where
  "setCallSid sid s = s\<lparr>callSid := Some sid\<rparr>"

definition resetContext :: "session \<Rightarrow> session" where
  "resetContext s = s\<lparr>userContext := take 2 (userContext s), partialResponseIndex := 0\<rparr>"

definition cleanup :: "session \<Rightarrow> session" where
  "cleanup s = (removeAllListeners (resetContext s))\<lparr>isProcessing := False\<rparr>"

definition shouldResetContext :: "session \<Rightarrow> bool" where
  "shouldResetContext s \<longleftrightarrow> length (userContext s) > 10"

section \<open>The completion provider\<close>

text \<open>
  One element of \<open>chunk.choices\<close>: \<open>delta_content\<close> is \<open>delta?.content\<close>, with \<open>None\<close> for
  a missing delta or a missing or null content, and \<open>finish_reason\<close> is \<open>None\<close> for null.
\<close>

record choice =
  delta_content :: "jsstring option"
  finish_reason :: "jsstring option"

record chunk =
  choices :: "choice list"

text \<open>
  What one streaming request does: the chunks the stream yields, then \<open>None\<close> when the
  stream ends normally and \<open>Some e\<close> when it throws \<open>e\<close> (a request that is refused
  yields no chunk and throws). A stream that never ends would leave the call unresolved
  for ever and is not considered. A provider answers the request of attempt number \<open>n\<close>
  (counted from 0 within one call of \<open>completion\<close>) for the given messages.
\<close>

type_synonym attempt = "chunk list \<times> error option"
type_synonym provider = "nat \<Rightarrow> turn list \<Rightarrow> attempt"

section \<open>completion\<close>

text \<open>The locals of one attempt: \<open>completeResponse\<close> and \<open>partialResponse\<close>.\<close>

record stream_locals =
  completeResponse :: jsstring
  partialResponse :: jsstring

definition fresh_locals :: stream_locals where
  "fresh_locals = \<lparr>completeResponse = [], partialResponse = []\<rparr>"

text \<open>\<open>chunk.choices[0]?.delta?.content || ""\<close>\<close>

definition chunk_content :: "chunk \<Rightarrow> jsstring" where
  "chunk_content ch =
     (case choices ch of [] \<Rightarrow> []
      | c0 # _ \<Rightarrow> (case delta_content c0 of None \<Rightarrow> [] | Some t \<Rightarrow> t))"

text \<open>
  The body of the \<open>for await\<close> loop for one chunk, from the locals and the session to the
  new ones and the error thrown, if any. Reading \<open>finish_reason\<close> throws when the chunk
  has no choice, before anything is changed.
\<close>

definition chunk_body ::
  "nat \<Rightarrow> chunk \<Rightarrow> stream_locals \<times> session \<Rightarrow> stream_locals \<times> session \<times> error option" where
  "chunk_body interactionCount ch ls =
     (case ls of (l, s) \<Rightarrow>
        (case choices ch of
           [] \<Rightarrow> (l, s, Some TypeError)
         | c0 # _ \<Rightarrow>
            (let content = chunk_content ch;
                 finishReason = finish_reason c0;
                 l1 = l\<lparr>completeResponse := completeResponse l @ content,
                        partialResponse := partialResponse l @ content\<rparr>
             in if slice_last (js_trim content) = [bullet] \<or> finishReason = Some (str ''stop'')
                then (l1\<lparr>partialResponse := []\<rparr>,
                      s\<lparr>emitted := emitted s @
                           [GptReply (partialResponseIndex s) (js_trim (partialResponse l1))
                              (callSid s) interactionCount],
                        partialResponseIndex := partialResponseIndex s + 1\<rparr>,
                      None)
                else (l1, s, None))))"

text \<open>The \<open>for await\<close> loop over the chunks the stream yields; a throw leaves the loop.\<close>

fun for_await ::
  "nat \<Rightarrow> chunk list \<Rightarrow> stream_locals \<times> session \<Rightarrow> stream_locals \<times> session \<times> error option" where
  "for_await interactionCount [] ls = (fst ls, snd ls, None)"
| "for_await interactionCount (ch # rest) ls =
     (case chunk_body interactionCount ch ls of
        (l, s, Some e) \<Rightarrow> (l, s, Some e)
      | (l, s, None) \<Rightarrow> for_await interactionCount rest (l, s))"

text \<open>
  The body of the inner \<open>try\<close>: the request, the loop, and on a normal end of the stream
  the push of the assistant turn. The result is the session and the error thrown, if any.
\<close>

definition attempt_body :: "provider \<Rightarrow> nat \<Rightarrow> nat \<Rightarrow> session \<Rightarrow> session \<times> error option" where
  "attempt_body prov interactionCount retryCount s =
     (case prov retryCount (userContext s) of (chunks, fin) \<Rightarrow>
        (case for_await interactionCount chunks (fresh_locals, s) of
           (l, s1, Some e) \<Rightarrow> (s1, Some e)
         | (l, s1, None) \<Rightarrow>
             (case fin of
                Some e \<Rightarrow> (s1, Some e)
              | None \<Rightarrow>
                  (s1\<lparr>userContext := userContext s1 @
                        [\<lparr>role = str ''assistant'', content = completeResponse l\<rparr>]\<rparr>,
                   None))))"

lemma chunk_body_maxRetries:
  "chunk_body ic ch (l, s) = (l', s', r) \<Longrightarrow> maxRetries s' = maxRetries s"
  by (auto simp: chunk_body_def Let_def split: list.splits if_splits)

lemma for_await_maxRetries:
  "for_await ic chunks (l, s) = (l', s', r) \<Longrightarrow> maxRetries s' = maxRetries s"
proof (induction chunks arbitrary: l s)
  case Nil
  then show ?case by simp
next
  case (Cons ch rest)
  obtain l1 s1 r1 where cb: "chunk_body ic ch (l, s) = (l1, s1, r1)"
    by (metis prod_cases3)
  have m1: "maxRetries s1 = maxRetries s"
    using cb by (rule chunk_body_maxRetries)
  show ?case
  proof (cases r1)
    case None
    with Cons.prems cb have "for_await ic rest (l1, s1) = (l', s', r)" by simp
    then have "maxRetries s' = maxRetries s1" by (rule Cons.IH)
    with m1 show ?thesis by simp
  next
    case (Some e)
    with Cons.prems cb have "s' = s1" by simp
    with m1 show ?thesis by simp
  qed
qed

lemma attempt_body_maxRetries:
  "attempt_body prov ic rc s = (s', r) \<Longrightarrow> maxRetries s' = maxRetries s"
  by (auto simp: attempt_body_def split: prod.splits option.splits
      dest: for_await_maxRetries)

text \<open>
  The \<open>while (retryCount < this.maxRetries && !success)\<close> loop with its \<open>catch\<close>: a failed
  attempt counts, the last one rethrows, any other waits \<open>Math.pow(2, retryCount) * 1000\<close>
  milliseconds and goes round again. The result is the session and the error that
  reaches the outer \<open>catch\<close>, if any.
\<close>

function retry_loop :: "provider \<Rightarrow> nat \<Rightarrow> nat \<Rightarrow> session \<Rightarrow> session \<times> error option" where
  "retry_loop prov interactionCount retryCount s =
     (if retryCount < maxRetries s then
        (case attempt_body prov interactionCount retryCount s of
           (s1, None) \<Rightarrow> (s1, None)
         | (s1, Some e) \<Rightarrow>
             (if retryCount + 1 = maxRetries s1 then (s1, Some e)
              else retry_loop prov interactionCount (retryCount + 1)
                     (s1\<lparr>slept := slept s1 @ [2 ^ (retryCount + 1) * 1000]\<rparr>)))
      else (s, None))"
  by pat_completeness auto
termination
proof (relation "measure (\<lambda>(prov, ic, rc, s). maxRetries s - rc)")
  show "wf (measure (\<lambda>(prov, ic, rc, s). maxRetries s - rc))" by simp
next
  fix prov :: provider and interactionCount retryCount :: nat and s x :: "session"
    and x1 :: session and x2 :: "error option" and e :: error
  assume lt: "retryCount < maxRetries s"
    and ab: "(x1, x2) = attempt_body prov interactionCount retryCount s"
  have "maxRetries x1 = maxRetries s"
    using ab [symmetric] by (rule attempt_body_maxRetries)
  with lt show "((prov, interactionCount, retryCount + 1,
        x1\<lparr>slept := slept x1 @ [2 ^ (retryCount + 1) * 1000]\<rparr>),
       prov, interactionCount, retryCount, s)
      \<in> measure (\<lambda>(prov, ic, rc, s). maxRetries s - rc)"
    by simp
qed

definition fallback :: jsstring where
  "fallback = str ''I apologize, but I'm having trouble processing your request. ''
     @ [bullet] @ str '' Could you please repeat that?''"

declare retry_loop.simps [simp del]

text \<open>
  \<open>completion(text, interactionCount, role)\<close>: the guard, the push of the new turn, the
  retry loop, the outer \<open>catch\<close> with the error event and the fallback reply, and the
  \<open>finally\<close>. The \<open>emit\<close> of the error event throws when the session has no listener
  of \<open>"error"\<close>; the fallback reply is then not emitted and, after the \<open>finally\<close>, the
  promise rejects. The result is the session when the promise settles and the error with
  which it rejects, \<open>None\<close> when it resolves.
\<close>

definition completion_call ::
  "provider \<Rightarrow> jsstring \<Rightarrow> nat \<Rightarrow> jsstring \<Rightarrow> session \<Rightarrow> session \<times> error option" where
  "completion_call prov text interactionCount role' s =
     (if isProcessing s then (s, None)
      else
        (let s1 = s\<lparr>isProcessing := True\<rparr>;
             s2 = s1\<lparr>userContext := userContext s1 @ [\<lparr>role = role', content = text\<rparr>]\<rparr>
         in case (case retry_loop prov interactionCount 0 s2 of
                    (s3, None) \<Rightarrow> (s3, None)
                  | (s3, Some e) \<Rightarrow>
                      (let s4 = s3\<lparr>emitted := emitted s3 @ [ErrorEvent e]\<rparr>
                       in if str ''error'' \<in> set (listeners s4)
                          then (s4\<lparr>emitted := emitted s4 @
                                     [GptReply (partialResponseIndex s4) fallback (callSid s4)
                                        interactionCount]\<rparr>, None)
                          else (s4, Some e))) of
              (s5, thrown) \<Rightarrow> (s5\<lparr>isProcessing := False\<rparr>, thrown)))"

text \<open>The session after a call of \<open>completion\<close>, however its promise settles.\<close>

definition completion :: "provider \<Rightarrow> jsstring \<Rightarrow> nat \<Rightarrow> jsstring \<Rightarrow> session \<Rightarrow> session" where
  "completion prov text interactionCount role' s =
     fst (completion_call prov text interactionCount role' s)"

section \<open>Vocabulary of the properties\<close>

text \<open>
  A chunk the loop body can process, and a chunk on which the test of the loop body
  succeeds: the trimmed fragment ends on the marker, or the finish reason is \<open>"stop"\<close>.
\<close>

definition has_choice :: "chunk \<Rightarrow> bool" where
  "has_choice ch \<longleftrightarrow> choices ch \<noteq> []"

definition boundary_chunk :: "chunk \<Rightarrow> bool" where
  "boundary_chunk ch \<longleftrightarrow>
     (case choices ch of [] \<Rightarrow> False
      | c0 # _ \<Rightarrow> slice_last (js_trim (chunk_content ch)) = [bullet]
                  \<or> finish_reason c0 = Some (str ''stop''))"

text \<open>The chunks of a stream that the loop body processes before one of them throws.\<close>

definition delivered :: "chunk list \<Rightarrow> chunk list" where
  "delivered cs = takeWhile has_choice cs"

text \<open>
  The error that ends an attempt, \<open>None\<close> for an attempt that succeeds: the
  \<open>TypeError\<close> of the first chunk without a choice, or else the way the stream ends.
\<close>

definition attempt_error :: "attempt \<Rightarrow> error option" where
  "attempt_error a =
     (case a of (cs, fin) \<Rightarrow> if list_all has_choice cs then fin else Some TypeError)"

text \<open>The number of chunks of an attempt on which the loop body emits.\<close>

definition boundaries :: "attempt \<Rightarrow> nat" where
  "boundaries a = length (filter boundary_chunk (delivered (fst a)))"

text \<open>The assistant turn that a successful attempt with these chunks pushes.\<close>

definition assistant_turn :: "chunk list \<Rightarrow> turn" where
  "assistant_turn cs = \<lparr>role = str ''assistant'', content = concat (map chunk_content cs)\<rparr>"

fun reply_index :: "event \<Rightarrow> nat option" where
  "reply_index (GptReply i t sid n) = Some i"
| "reply_index (ErrorEvent e) = None"

text \<open>The events are all replies, numbered \<open>i\<close>, \<open>i + 1\<close>, \<open>i + 2\<close> and so on.\<close>

definition numbered_from :: "nat \<Rightarrow> event list \<Rightarrow> bool" where
  "numbered_from i evs \<longleftrightarrow> map reply_index evs = map Some [i ..< i + length evs]"

text \<open>The replies with the given texts, numbered from \<open>i\<close>.\<close>

fun replies_from :: "nat \<Rightarrow> jsstring option \<Rightarrow> nat \<Rightarrow> jsstring list \<Rightarrow> event list" where
  "replies_from i sid n [] = []"
| "replies_from i sid n (t # ts) = GptReply i t sid n # replies_from (Suc i) sid n ts"

text \<open>
  The emission rule in the words of the specification, to be compared with the loop.
  The chunk carries the stop signal; and the texts emitted for a stream of chunks, from
  a given partial buffer: each fragment is appended to the buffer, and whenever the
  trimmed buffer ends on the marker or the chunk carries the stop signal, the trimmed
  buffer is emitted and the buffer cleared.
\<close>

definition stop_signal :: "chunk \<Rightarrow> bool" where
  "stop_signal ch \<longleftrightarrow>
     (case choices ch of [] \<Rightarrow> False | c0 # _ \<Rightarrow> finish_reason c0 = Some (str ''stop''))"

fun buffer_segments :: "jsstring \<Rightarrow> chunk list \<Rightarrow> jsstring list" where
  "buffer_segments buffer [] = []"
| "buffer_segments buffer (ch # rest) =
     (if slice_last (js_trim (buffer @ chunk_content ch)) = [bullet] \<or> stop_signal ch
      then js_trim (buffer @ chunk_content ch) # buffer_segments [] rest
      else buffer_segments (buffer @ chunk_content ch) rest)"

text \<open>The errors carried by the error events of a list of events.\<close>

fun errors_of :: "event list \<Rightarrow> error list" where
  "errors_of [] = []"
| "errors_of (GptReply i t sid n # evs) = errors_of evs"
| "errors_of (ErrorEvent e # evs) = e # errors_of evs"

text \<open>
  A chunk that carries one content fragment, without and with the stop signal, and the
  stream of a list of fragments whose last chunk carries the stop signal.
\<close>

definition fragment :: "jsstring \<Rightarrow> chunk" where
  "fragment t = \<lparr>choices = [\<lparr>delta_content = Some t, finish_reason = None\<rparr>]\<rparr>"

definition fragment_stop :: "jsstring \<Rightarrow> chunk" where
  "fragment_stop t =
     \<lparr>choices = [\<lparr>delta_content = Some t, finish_reason = Some (str ''stop'')\<rparr>]\<rparr>"

definition stop_terminated :: "jsstring list \<Rightarrow> chunk list" where
  "stop_terminated fs = map fragment (butlast fs) @ [fragment_stop (last fs)]"

definition ends_with_marker :: "jsstring \<Rightarrow> bool" where
  "ends_with_marker f \<longleftrightarrow> slice_last (js_trim f) = [bullet]"

text \<open>
  The sessions that the constructor, the subscriptions of the host and the methods of the
  class produce, each call of \<open>completion\<close> running to its end before the next method is
  called.
\<close>

inductive reachable :: "session \<Rightarrow> bool" where
  reachable_constructor: "reachable constructor"
| reachable_addListener: "reachable s \<Longrightarrow> reachable (addListener eventName s)"
| reachable_setCallSid: "reachable s \<Longrightarrow> reachable (setCallSid sid s)"
| reachable_resetContext: "reachable s \<Longrightarrow> reachable (resetContext s)"
| reachable_cleanup: "reachable s \<Longrightarrow> reachable (cleanup s)"
| reachable_completion: "reachable s \<Longrightarrow> reachable (completion prov t ic r s)"

section \<open>Sample providers\<close>

text \<open>
  A provider that answers every request with the same stream, one whose every request
  is refused, one whose first two requests are refused, and one whose first stream
  breaks off after a fragment that ends on the marker.
\<close>

definition replying :: "chunk list \<Rightarrow> provider" where
  "replying cs n msgs = (cs, None)"

definition always_failing :: provider where
  "always_failing n msgs = ([], Some (ProviderError n))"

definition failing_twice :: provider where
  "failing_twice n msgs =
     (if n < 2 then ([], Some (ProviderError n)) else ([fragment_stop (str ''ok'')], None))"

definition breaking_off :: provider where
  "breaking_off n msgs =
     (if n = 0 then ([fragment (str ''hi'' @ [bullet])], Some (ProviderError 0))
      else ([fragment_stop (str ''ok'')], None))"

lemmas run = completion_def completion_call_def constructor_def addListener_def retry_loop.simps
  stop_signal_def attempt_body_def chunk_body_def
  fresh_locals_def chunk_content_def fragment_def fragment_stop_def stop_terminated_def
  js_trim_def js_whitespace_def slice_last_def str_def bullet_def Let_def
  replying_def always_failing_def failing_twice_def breaking_off_def

section \<open>Trimming and the last code unit\<close>

lemma slice_last_trim:
  "slice_last (js_trim s) =
     (if \<forall>x\<in>set s. js_whitespace x then []
      else [hd (dropWhile js_whitespace (rev s))])"
proof (cases "dropWhile js_whitespace (rev s)")
  case Nil
  then have all: "\<forall>x\<in>set s. js_whitespace x" by simp
  have "slice_last (js_trim s) = []"
    unfolding js_trim_def slice_last_def Nil by simp
  with all show ?thesis by simp
next
  case (Cons x t)
  have "\<not> js_whitespace (hd (dropWhile js_whitespace (rev s)))"
    by (rule hd_dropWhile) (simp add: Cons)
  then have nx: "\<not> js_whitespace x" by (simp add: Cons)
  have notall: "\<not> (\<forall>x\<in>set s. js_whitespace x)"
    using Cons by (metis dropWhile_eq_Nil_conv list.distinct(1) set_rev)
  have "rev (js_trim s) = x # rev (dropWhile js_whitespace (rev t))"
    unfolding js_trim_def Cons using nx by (simp add: dropWhile_append)
  then have "slice_last (js_trim s) = [x]" by (simp add: slice_last_def)
  with notall show ?thesis unfolding Cons by simp
qed

lemma slice_last_trim_append:
  "slice_last (js_trim (b @ c)) =
     (if \<forall>x\<in>set c. js_whitespace x then slice_last (js_trim b) else slice_last (js_trim c))"
proof (cases "\<forall>x\<in>set c. js_whitespace x")
  case True
  then have "dropWhile js_whitespace (rev (b @ c)) = dropWhile js_whitespace (rev b)"
    by (simp add: dropWhile_append)
  moreover from True
  have "(\<forall>x\<in>set (b @ c). js_whitespace x) \<longleftrightarrow> (\<forall>x\<in>set b. js_whitespace x)"
    by auto
  ultimately show ?thesis using True unfolding slice_last_trim by simp
next
  case False
  then have ne: "dropWhile js_whitespace (rev c) \<noteq> []"
    by (metis dropWhile_eq_Nil_conv set_rev)
  from False have "dropWhile js_whitespace (rev (b @ c)) = dropWhile js_whitespace (rev c) @ rev b"
    by (auto simp: dropWhile_append)
  then have "hd (dropWhile js_whitespace (rev (b @ c))) = hd (dropWhile js_whitespace (rev c))"
    using ne by simp
  moreover from False have "\<not> (\<forall>x\<in>set (b @ c). js_whitespace x)" by auto
  ultimately show ?thesis using False unfolding slice_last_trim by (simp only: if_False)
qed

lemma slice_last_trim_whitespace:
  "\<forall>x\<in>set c. js_whitespace x \<Longrightarrow> slice_last (js_trim c) = []"
  unfolding slice_last_trim by simp

text \<open>
  The test of the loop body looks at the fragment; on a buffer that did not end on the
  marker before the fragment was appended it agrees with the same test on the buffer.
\<close>

lemma boundary_test_buffer:
  assumes "slice_last (js_trim b) \<noteq> [bullet]"
  shows "slice_last (js_trim (b @ c)) = [bullet] \<longleftrightarrow> slice_last (js_trim c) = [bullet]"
  using assms by (simp add: slice_last_trim_append slice_last_trim_whitespace)

lemma slice_last_trim_Nil: "slice_last (js_trim []) = []"
  by (simp add: js_trim_def slice_last_def)

section \<open>What the loop, an attempt and the retry loop do to the session\<close>

lemma numbered_from_Nil: "numbered_from i []"
  by (simp add: numbered_from_def)

lemma numbered_from_single: "numbered_from i [GptReply i t sid n]"
  by (simp add: numbered_from_def)

lemma numbered_from_append:
  assumes "numbered_from i xs" and "numbered_from (i + length xs) ys"
  shows "numbered_from i (xs @ ys)"
proof -
  have "[i ..< i + length xs + length ys] = [i ..< i + length xs] @ [i + length xs ..< i + length xs + length ys]"
    by (rule upt_add_eq_append) simp
  with assms show ?thesis by (simp add: numbered_from_def add.assoc)
qed

lemma chunk_body_effect:
  assumes "chunk_body ic ch (l, s) = (l', s', r)"
  shows "\<exists>segs. s' = s\<lparr>emitted := emitted s @ segs,
                        partialResponseIndex := partialResponseIndex s + length segs\<rparr>
          \<and> numbered_from (partialResponseIndex s) segs
          \<and> length segs = (if boundary_chunk ch then 1 else 0)
          \<and> r = (if has_choice ch then None else Some TypeError)
          \<and> completeResponse l' = completeResponse l @ chunk_content ch"
proof (cases "choices ch")
  case Nil
  with assms have "s' = s" "r = Some TypeError" "l' = l"
    by (simp_all add: chunk_body_def)
  with Nil show ?thesis
    by (intro exI [of _ "[]"]) (simp add: numbered_from_Nil boundary_chunk_def has_choice_def chunk_content_def)
next
  case (Cons c0 others)
  show ?thesis
  proof (cases "boundary_chunk ch")
    case True
    with Cons assms show ?thesis
      by (intro exI [of _ "[GptReply (partialResponseIndex s)
            (js_trim (partialResponse l @ chunk_content ch)) (callSid s) ic]"])
        (auto simp: chunk_body_def Let_def boundary_chunk_def has_choice_def numbered_from_single)
  next
    case False
    with Cons assms show ?thesis
      by (intro exI [of _ "[]"])
        (auto simp: chunk_body_def Let_def boundary_chunk_def has_choice_def numbered_from_Nil)
  qed
qed

lemma for_await_effect:
  assumes "for_await ic cs (l, s) = (l', s', r)"
  shows "\<exists>segs. s' = s\<lparr>emitted := emitted s @ segs,
                        partialResponseIndex := partialResponseIndex s + length segs\<rparr>
          \<and> numbered_from (partialResponseIndex s) segs
          \<and> length segs = length (filter boundary_chunk (delivered cs))
          \<and> r = (if list_all has_choice cs then None else Some TypeError)
          \<and> completeResponse l' = completeResponse l @ concat (map chunk_content (delivered cs))"
  using assms
proof (induction cs arbitrary: l s)
  case Nil
  then show ?case
    by (intro exI [of _ "[]"]) (simp add: numbered_from_Nil delivered_def)
next
  case (Cons ch rest)
  obtain l1 s1 r1 where cb: "chunk_body ic ch (l, s) = (l1, s1, r1)"
    by (metis prod_cases3)
  from chunk_body_effect [OF cb] obtain segs1 where
    s1: "s1 = s\<lparr>emitted := emitted s @ segs1,
                 partialResponseIndex := partialResponseIndex s + length segs1\<rparr>"
    and n1: "numbered_from (partialResponseIndex s) segs1"
    and len1: "length segs1 = (if boundary_chunk ch then 1 else 0)"
    and r1: "r1 = (if has_choice ch then None else Some TypeError)"
    and c1: "completeResponse l1 = completeResponse l @ chunk_content ch"
    by blast
  show ?case
  proof (cases "has_choice ch")
    case False
    with r1 have "r1 = Some TypeError" by simp
    with Cons.prems cb have eq: "l' = l1" "s' = s1" "r = Some TypeError" by simp_all
    from False have nb: "\<not> boundary_chunk ch" "chunk_content ch = []"
      by (simp_all add: boundary_chunk_def has_choice_def chunk_content_def)
    from False nb eq s1 n1 len1 c1 show ?thesis
      by (intro exI [of _ segs1]) (simp add: delivered_def)
  next
    case True
    with r1 have "r1 = None" by simp
    with Cons.prems cb have fa: "for_await ic rest (l1, s1) = (l', s', r)" by simp
    from Cons.IH [OF fa] obtain segs2 where
      s2: "s' = s1\<lparr>emitted := emitted s1 @ segs2,
                   partialResponseIndex := partialResponseIndex s1 + length segs2\<rparr>"
      and n2: "numbered_from (partialResponseIndex s1) segs2"
      and len2: "length segs2 = length (filter boundary_chunk (delivered rest))"
      and r2: "r = (if list_all has_choice rest then None else Some TypeError)"
      and c2: "completeResponse l' = completeResponse l1 @ concat (map chunk_content (delivered rest))"
      by blast
    have idx1: "partialResponseIndex s1 = partialResponseIndex s + length segs1"
      by (simp add: s1)
    have n12: "numbered_from (partialResponseIndex s) (segs1 @ segs2)"
      using n1 n2 unfolding idx1 by (rule numbered_from_append)
    have s12: "s' = s\<lparr>emitted := emitted s @ (segs1 @ segs2),
                 partialResponseIndex := partialResponseIndex s + length (segs1 @ segs2)\<rparr>"
      by (simp add: s2 s1)
    have len12: "length (segs1 @ segs2) = length (filter boundary_chunk (delivered (ch # rest)))"
      using True len1 len2 by (simp add: delivered_def)
    have c12: "completeResponse l' = completeResponse l @ concat (map chunk_content (delivered (ch # rest)))"
      using True c1 c2 by (simp add: delivered_def)
    from True r2 have r12: "r = (if list_all has_choice (ch # rest) then None else Some TypeError)"
      by simp
    from s12 n12 len12 r12 c12 show ?thesis by blast
  qed
qed

lemma delivered_all: "list_all has_choice cs \<Longrightarrow> delivered cs = cs"
  by (simp add: delivered_def list_all_iff)

lemma attempt_body_effect:
  assumes "attempt_body prov ic n s = (s', r)"
  shows "\<exists>segs. s' = s\<lparr>emitted := emitted s @ segs,
                        partialResponseIndex := partialResponseIndex s + length segs,
                        userContext :=
                          (if r = None
                           then userContext s @ [assistant_turn (fst (prov n (userContext s)))]
                           else userContext s)\<rparr>
          \<and> numbered_from (partialResponseIndex s) segs
          \<and> length segs = boundaries (prov n (userContext s))
          \<and> r = attempt_error (prov n (userContext s))"
proof -
  obtain cs fin where p: "prov n (userContext s) = (cs, fin)"
    by (cases "prov n (userContext s)")
  obtain l1 s1 r1 where fa: "for_await ic cs (fresh_locals, s) = (l1, s1, r1)"
    by (metis prod_cases3)
  from for_await_effect [OF fa] obtain segs where
    s1: "s1 = s\<lparr>emitted := emitted s @ segs,
                 partialResponseIndex := partialResponseIndex s + length segs\<rparr>"
    and n1: "numbered_from (partialResponseIndex s) segs"
    and len1: "length segs = length (filter boundary_chunk (delivered cs))"
    and r1: "r1 = (if list_all has_choice cs then None else Some TypeError)"
    and c1: "completeResponse l1 = completeResponse fresh_locals @ concat (map chunk_content (delivered cs))"
    by blast
  show ?thesis
  proof (cases "list_all has_choice cs")
    case False
    with r1 have "r1 = Some TypeError" by simp
    with assms p fa have "s' = s1" "r = Some TypeError"
      by (simp_all add: attempt_body_def)
    with False s1 n1 len1 p show ?thesis
      by (intro exI [of _ segs]) (simp add: attempt_error_def boundaries_def)
  next
    case True
    with r1 have r1n: "r1 = None" by simp
    from True c1 have c: "completeResponse l1 = concat (map chunk_content cs)"
      by (simp add: delivered_all fresh_locals_def)
    show ?thesis
    proof (cases fin)
      case (Some e)
      with assms p fa r1n have "s' = s1" "r = Some e"
        by (simp_all add: attempt_body_def)
      with True Some s1 n1 len1 p show ?thesis
        by (intro exI [of _ segs]) (simp add: attempt_error_def boundaries_def)
    next
      case None
      with assms p fa r1n c have
        "s' = s1\<lparr>userContext := userContext s1 @ [assistant_turn cs]\<rparr>" "r = None"
        by (simp_all add: attempt_body_def assistant_turn_def)
      with True None s1 n1 len1 p show ?thesis
        by (intro exI [of _ segs]) (simp add: attempt_error_def boundaries_def)
    qed
  qed
qed

lemma retry_success:
  assumes "rc < maxRetries s" and "attempt_error (prov rc (userContext s)) = None"
  shows "\<exists>segs. retry_loop prov ic rc s =
            (s\<lparr>emitted := emitted s @ segs,
               partialResponseIndex := partialResponseIndex s + length segs,
               userContext := userContext s @ [assistant_turn (fst (prov rc (userContext s)))]\<rparr>,
             None)
          \<and> numbered_from (partialResponseIndex s) segs
          \<and> length segs = boundaries (prov rc (userContext s))"
proof -
  obtain s1 r1 where ab: "attempt_body prov ic rc s = (s1, r1)"
    by (cases "attempt_body prov ic rc s")
  from attempt_body_effect [OF ab] assms(2) obtain segs where
    "s1 = s\<lparr>emitted := emitted s @ segs,
             partialResponseIndex := partialResponseIndex s + length segs,
             userContext := userContext s @ [assistant_turn (fst (prov rc (userContext s)))]\<rparr>"
    "numbered_from (partialResponseIndex s) segs"
    "length segs = boundaries (prov rc (userContext s))"
    "r1 = None"
    by auto
  with assms(1) ab show ?thesis
    by (intro exI [of _ segs]) (simp add: retry_loop.simps)
qed

lemma retry_failure:
  assumes "rc < maxRetries s" and "attempt_error (prov rc (userContext s)) = Some e"
    and "rc' = rc + 1"
  shows "\<exists>segs. retry_loop prov ic rc s =
            (if rc' = maxRetries s
             then (s\<lparr>emitted := emitted s @ segs,
                     partialResponseIndex := partialResponseIndex s + length segs\<rparr>, Some e)
             else retry_loop prov ic rc'
                    (s\<lparr>emitted := emitted s @ segs,
                       partialResponseIndex := partialResponseIndex s + length segs,
                       slept := slept s @ [2 ^ rc' * 1000]\<rparr>))
          \<and> numbered_from (partialResponseIndex s) segs
          \<and> length segs = boundaries (prov rc (userContext s))"
proof -
  obtain s1 r1 where ab: "attempt_body prov ic rc s = (s1, r1)"
    by (cases "attempt_body prov ic rc s")
  from attempt_body_effect [OF ab] assms(2) obtain segs where
    "s1 = s\<lparr>emitted := emitted s @ segs,
             partialResponseIndex := partialResponseIndex s + length segs\<rparr>"
    "numbered_from (partialResponseIndex s) segs"
    "length segs = boundaries (prov rc (userContext s))"
    "r1 = Some e"
    by auto
  with assms(1,3) ab show ?thesis
    by (intro exI [of _ segs]) (simp add: retry_loop.simps [of prov ic rc s])
qed

lemma retry_fail_fail:
  assumes m: "maxRetries s = 3"
    and e0: "attempt_error (prov 0 (userContext s)) = Some e0"
    and e1: "attempt_error (prov 1 (userContext s)) = Some e1"
  shows "\<exists>segs. retry_loop prov ic 0 s =
            retry_loop prov ic 2
              (s\<lparr>emitted := emitted s @ segs,
                 partialResponseIndex := partialResponseIndex s + length segs,
                 slept := slept s @ [2000, 4000]\<rparr>)
          \<and> numbered_from (partialResponseIndex s) segs
          \<and> length segs = boundaries (prov 0 (userContext s))
               + boundaries (prov 1 (userContext s))"
proof -
  from m have lt0: "0 < maxRetries s" by simp
  have "\<exists>segs. retry_loop prov ic 0 s = retry_loop prov ic 1
           (s\<lparr>emitted := emitted s @ segs,
              partialResponseIndex := partialResponseIndex s + length segs,
              slept := slept s @ [2000]\<rparr>)
         \<and> numbered_from (partialResponseIndex s) segs
         \<and> length segs = boundaries (prov 0 (userContext s))"
    using retry_failure [where rc=0 and rc'=1 and s=s and prov=prov and e=e0 and ic=ic, OF lt0 e0] m
    by simp
  then obtain segs0 where
    r0: "retry_loop prov ic 0 s = retry_loop prov ic 1
           (s\<lparr>emitted := emitted s @ segs0,
              partialResponseIndex := partialResponseIndex s + length segs0,
              slept := slept s @ [2000]\<rparr>)"
    and n0: "numbered_from (partialResponseIndex s) segs0"
    and l0: "length segs0 = boundaries (prov 0 (userContext s))"
    by blast
  define sa where "sa = s\<lparr>emitted := emitted s @ segs0,
              partialResponseIndex := partialResponseIndex s + length segs0,
              slept := slept s @ [2000]\<rparr>"
  have sa: "maxRetries sa = 3" "userContext sa = userContext s"
    "partialResponseIndex sa = partialResponseIndex s + length segs0"
    using m by (simp_all add: sa_def)
  have lt1: "1 < maxRetries sa" and ea: "attempt_error (prov 1 (userContext sa)) = Some e1"
    using e1 sa by simp_all
  have "\<exists>segs. retry_loop prov ic 1 sa = retry_loop prov ic 2
           (sa\<lparr>emitted := emitted sa @ segs,
              partialResponseIndex := partialResponseIndex sa + length segs,
              slept := slept sa @ [4000]\<rparr>)
         \<and> numbered_from (partialResponseIndex sa) segs
         \<and> length segs = boundaries (prov 1 (userContext sa))"
    using retry_failure [where rc=1 and rc'=2 and s=sa and prov=prov and e=e1 and ic=ic, OF lt1 ea] sa(1)
    by simp
  then obtain segs1 where
    r1: "retry_loop prov ic 1 sa = retry_loop prov ic 2
           (sa\<lparr>emitted := emitted sa @ segs1,
              partialResponseIndex := partialResponseIndex sa + length segs1,
              slept := slept sa @ [4000]\<rparr>)"
    and n1: "numbered_from (partialResponseIndex sa) segs1"
    and l1: "length segs1 = boundaries (prov 1 (userContext sa))"
    by blast
  have n01: "numbered_from (partialResponseIndex s) (segs0 @ segs1)"
    using n0 n1 unfolding sa(3) by (rule numbered_from_append)
  have "retry_loop prov ic 0 s =
          retry_loop prov ic 2
            (s\<lparr>emitted := emitted s @ (segs0 @ segs1),
               partialResponseIndex := partialResponseIndex s + length (segs0 @ segs1),
               slept := slept s @ [2000, 4000]\<rparr>)"
    unfolding r0 using r1 by (simp add: sa_def add.assoc)
  moreover have "length (segs0 @ segs1) = boundaries (prov 0 (userContext s))
               + boundaries (prov 1 (userContext s))"
    using l0 l1 sa(2) by simp
  ultimately show ?thesis using n01 by blast
qed

lemma retry_fail_fail_fail:
  assumes m: "maxRetries s = 3"
    and e0: "attempt_error (prov 0 (userContext s)) = Some e0"
    and e1: "attempt_error (prov 1 (userContext s)) = Some e1"
    and e2: "attempt_error (prov 2 (userContext s)) = Some e2"
  shows "\<exists>segs. retry_loop prov ic 0 s =
            (s\<lparr>emitted := emitted s @ segs,
               partialResponseIndex := partialResponseIndex s + length segs,
               slept := slept s @ [2000, 4000]\<rparr>, Some e2)
          \<and> numbered_from (partialResponseIndex s) segs
          \<and> length segs = boundaries (prov 0 (userContext s))
               + boundaries (prov 1 (userContext s)) + boundaries (prov 2 (userContext s))"
proof -
  from retry_fail_fail [where prov=prov and s=s and ic=ic, OF m e0 e1] obtain segs01 where
    r01: "retry_loop prov ic 0 s = retry_loop prov ic 2
           (s\<lparr>emitted := emitted s @ segs01,
              partialResponseIndex := partialResponseIndex s + length segs01,
              slept := slept s @ [2000, 4000]\<rparr>)"
    and n01: "numbered_from (partialResponseIndex s) segs01"
    and l01: "length segs01 = boundaries (prov 0 (userContext s))
               + boundaries (prov 1 (userContext s))"
    by blast
  define sb where "sb = s\<lparr>emitted := emitted s @ segs01,
              partialResponseIndex := partialResponseIndex s + length segs01,
              slept := slept s @ [2000, 4000]\<rparr>"
  have sb: "maxRetries sb = 3" "userContext sb = userContext s"
    "partialResponseIndex sb = partialResponseIndex s + length segs01"
    using m by (simp_all add: sb_def)
  have lt2: "2 < maxRetries sb" and eb: "attempt_error (prov 2 (userContext sb)) = Some e2"
    using e2 sb by simp_all
  have "\<exists>segs. retry_loop prov ic 2 sb =
           (sb\<lparr>emitted := emitted sb @ segs,
              partialResponseIndex := partialResponseIndex sb + length segs\<rparr>, Some e2)
         \<and> numbered_from (partialResponseIndex sb) segs
         \<and> length segs = boundaries (prov 2 (userContext sb))"
    using retry_failure [where rc=2 and rc'=3 and s=sb and prov=prov and e=e2 and ic=ic, OF lt2 eb] sb(1)
    by simp
  then obtain segs2 where
    r2: "retry_loop prov ic 2 sb =
           (sb\<lparr>emitted := emitted sb @ segs2,
              partialResponseIndex := partialResponseIndex sb + length segs2\<rparr>, Some e2)"
    and n2: "numbered_from (partialResponseIndex sb) segs2"
    and l2: "length segs2 = boundaries (prov 2 (userContext sb))"
    by blast
  have n012: "numbered_from (partialResponseIndex s) (segs01 @ segs2)"
    using n01 n2 unfolding sb(3) by (rule numbered_from_append)
  have "retry_loop prov ic 0 s =
          (s\<lparr>emitted := emitted s @ (segs01 @ segs2),
             partialResponseIndex := partialResponseIndex s + length (segs01 @ segs2),
             slept := slept s @ [2000, 4000]\<rparr>, Some e2)"
    unfolding r01 using r2 by (simp add: sb_def add.assoc)
  moreover have "length (segs01 @ segs2) = boundaries (prov 0 (userContext s))
               + boundaries (prov 1 (userContext s)) + boundaries (prov 2 (userContext s))"
    using l01 l2 sb(2) by simp
  ultimately show ?thesis using n012 by blast
qed

lemma retry_fail_fail_success:
  assumes m: "maxRetries s = 3"
    and e0: "attempt_error (prov 0 (userContext s)) = Some e0"
    and e1: "attempt_error (prov 1 (userContext s)) = Some e1"
    and e2: "attempt_error (prov 2 (userContext s)) = None"
  shows "\<exists>segs. retry_loop prov ic 0 s =
            (s\<lparr>emitted := emitted s @ segs,
               partialResponseIndex := partialResponseIndex s + length segs,
               slept := slept s @ [2000, 4000],
               userContext := userContext s @ [assistant_turn (fst (prov 2 (userContext s)))]\<rparr>,
             None)
          \<and> numbered_from (partialResponseIndex s) segs
          \<and> length segs = boundaries (prov 0 (userContext s))
               + boundaries (prov 1 (userContext s)) + boundaries (prov 2 (userContext s))"
proof -
  from retry_fail_fail [where prov=prov and s=s and ic=ic, OF m e0 e1] obtain segs01 where
    r01: "retry_loop prov ic 0 s = retry_loop prov ic 2
           (s\<lparr>emitted := emitted s @ segs01,
              partialResponseIndex := partialResponseIndex s + length segs01,
              slept := slept s @ [2000, 4000]\<rparr>)"
    and n01: "numbered_from (partialResponseIndex s) segs01"
    and l01: "length segs01 = boundaries (prov 0 (userContext s))
               + boundaries (prov 1 (userContext s))"
    by blast
  define sb where "sb = s\<lparr>emitted := emitted s @ segs01,
              partialResponseIndex := partialResponseIndex s + length segs01,
              slept := slept s @ [2000, 4000]\<rparr>"
  have sb: "maxRetries sb = 3" "userContext sb = userContext s"
    "partialResponseIndex sb = partialResponseIndex s + length segs01"
    using m by (simp_all add: sb_def)
  have lt2: "2 < maxRetries sb" and eb: "attempt_error (prov 2 (userContext sb)) = None"
    using e2 sb by simp_all
  from retry_success [where rc=2 and s=sb and prov=prov and ic=ic, OF lt2 eb]
  obtain segs2 where
    r2: "retry_loop prov ic 2 sb =
           (sb\<lparr>emitted := emitted sb @ segs2,
              partialResponseIndex := partialResponseIndex sb + length segs2,
              userContext := userContext sb @ [assistant_turn (fst (prov 2 (userContext sb)))]\<rparr>,
            None)"
    and n2: "numbered_from (partialResponseIndex sb) segs2"
    and l2: "length segs2 = boundaries (prov 2 (userContext sb))"
    by blast
  have n012: "numbered_from (partialResponseIndex s) (segs01 @ segs2)"
    using n01 n2 unfolding sb(3) by (rule numbered_from_append)
  have "retry_loop prov ic 0 s =
          (s\<lparr>emitted := emitted s @ (segs01 @ segs2),
             partialResponseIndex := partialResponseIndex s + length (segs01 @ segs2),
             slept := slept s @ [2000, 4000],
             userContext := userContext s @ [assistant_turn (fst (prov 2 (userContext s)))]\<rparr>,
           None)"
    unfolding r01 using r2 by (simp add: sb_def add.assoc)
  moreover have "length (segs01 @ segs2) = boundaries (prov 0 (userContext s))
               + boundaries (prov 1 (userContext s)) + boundaries (prov 2 (userContext s))"
    using l01 l2 sb(2) by simp
  ultimately show ?thesis using n012 by blast
qed

lemma errors_of_append: "errors_of (xs @ ys) = errors_of xs @ errors_of ys"
  by (induction xs rule: errors_of.induct) simp_all

lemma errors_of_replies: "None \<notin> set (map reply_index evs) \<Longrightarrow> errors_of evs = []"
  by (induction evs rule: errors_of.induct) simp_all

lemma numbered_from_no_errors:
  assumes "numbered_from i evs"
  shows "errors_of evs = []"
proof -
  from assms have eq: "map reply_index evs = map Some [i ..< i + length evs]"
    by (simp add: numbered_from_def)
  have "None \<notin> set (map reply_index evs)"
    unfolding eq by auto
  then show ?thesis by (rule errors_of_replies)
qed

lemma retry_fail:
  assumes m: "maxRetries s = 3"
    and e0: "attempt_error (prov 0 (userContext s)) = Some e0"
  shows "\<exists>segs. retry_loop prov ic 0 s =
            retry_loop prov ic 1
              (s\<lparr>emitted := emitted s @ segs,
                 partialResponseIndex := partialResponseIndex s + length segs,
                 slept := slept s @ [2000]\<rparr>)
          \<and> numbered_from (partialResponseIndex s) segs
          \<and> length segs = boundaries (prov 0 (userContext s))"
proof -
  from m have lt0: "0 < maxRetries s" by simp
  show ?thesis
    using retry_failure [where rc=0 and rc'=1 and s=s and prov=prov and e=e0 and ic=ic, OF lt0 e0] m
    by simp
qed

lemma retry_fail_success:
  assumes m: "maxRetries s = 3"
    and e0: "attempt_error (prov 0 (userContext s)) = Some e0"
    and e1: "attempt_error (prov 1 (userContext s)) = None"
  shows "\<exists>segs. retry_loop prov ic 0 s =
            (s\<lparr>emitted := emitted s @ segs,
               partialResponseIndex := partialResponseIndex s + length segs,
               slept := slept s @ [2000],
               userContext := userContext s @ [assistant_turn (fst (prov 1 (userContext s)))]\<rparr>,
             None)
          \<and> numbered_from (partialResponseIndex s) segs"
proof -
  from retry_fail [where prov=prov and s=s and ic=ic, OF m e0] obtain segs0 where
    r0: "retry_loop prov ic 0 s = retry_loop prov ic 1
           (s\<lparr>emitted := emitted s @ segs0,
              partialResponseIndex := partialResponseIndex s + length segs0,
              slept := slept s @ [2000]\<rparr>)"
    and n0: "numbered_from (partialResponseIndex s) segs0"
    by blast
  define sa where "sa = s\<lparr>emitted := emitted s @ segs0,
              partialResponseIndex := partialResponseIndex s + length segs0,
              slept := slept s @ [2000]\<rparr>"
  have sa: "maxRetries sa = 3" "userContext sa = userContext s"
    "partialResponseIndex sa = partialResponseIndex s + length segs0"
    using m by (simp_all add: sa_def)
  have lt1: "1 < maxRetries sa" and ea: "attempt_error (prov 1 (userContext sa)) = None"
    using e1 sa by simp_all
  from retry_success [where rc=1 and s=sa and prov=prov and ic=ic, OF lt1 ea]
  obtain segs1 where
    r1: "retry_loop prov ic 1 sa =
           (sa\<lparr>emitted := emitted sa @ segs1,
              partialResponseIndex := partialResponseIndex sa + length segs1,
              userContext := userContext sa @ [assistant_turn (fst (prov 1 (userContext sa)))]\<rparr>,
            None)"
    and n1: "numbered_from (partialResponseIndex sa) segs1"
    by blast
  have n01: "numbered_from (partialResponseIndex s) (segs0 @ segs1)"
    using n0 n1 unfolding sa(3) by (rule numbered_from_append)
  have "retry_loop prov ic 0 s =
          (s\<lparr>emitted := emitted s @ (segs0 @ segs1),
             partialResponseIndex := partialResponseIndex s + length (segs0 @ segs1),
             slept := slept s @ [2000],
             userContext := userContext s @ [assistant_turn (fst (prov 1 (userContext s)))]\<rparr>,
           None)"
    unfolding r0 using r1 by (simp add: sa_def add.assoc)
  then show ?thesis using n01 by blast
qed


lemma boundary_fragment: "boundary_chunk (fragment f) \<longleftrightarrow> ends_with_marker f"
  by (simp add: boundary_chunk_def fragment_def ends_with_marker_def chunk_content_def)

lemma boundary_fragment_stop: "boundary_chunk (fragment_stop f)"
  by (simp add: boundary_chunk_def fragment_stop_def)

lemma has_choice_fragment: "has_choice (fragment f)" "has_choice (fragment_stop f)"
  by (simp_all add: has_choice_def fragment_def fragment_stop_def)

lemma stop_terminated_all: "list_all has_choice (stop_terminated fs)"
  by (simp add: stop_terminated_def list_all_iff has_choice_fragment)

lemma filter_boundary_fragments:
  "length (filter boundary_chunk (map fragment fs)) = length (filter ends_with_marker fs)"
  by (induction fs) (simp_all add: boundary_fragment)

lemma boundaries_stop_terminated:
  "boundaries (stop_terminated fs, fin) = length (filter ends_with_marker (butlast fs)) + 1"
  by (simp add: boundaries_def delivered_all [OF stop_terminated_all])
     (simp add: stop_terminated_def filter_boundary_fragments [symmetric] boundary_fragment_stop
        del: filter_map)

lemma completion_idle:
  assumes "\<not> isProcessing s"
  shows "completion prov t ic r s =
     (case retry_loop prov ic 0
             (s\<lparr>isProcessing := True,
                userContext := userContext s @ [\<lparr>role = r, content = t\<rparr>]\<rparr>) of
        (s3, None) \<Rightarrow> s3\<lparr>isProcessing := False\<rparr>
      | (s3, Some e) \<Rightarrow>
          s3\<lparr>emitted := emitted s3 @
               ErrorEvent e #
                 (if str ''error'' \<in> set (listeners s3)
                  then [GptReply (partialResponseIndex s3) fallback (callSid s3) ic]
                  else []),
             isProcessing := False\<rparr>)"
proof -
  obtain s3 r3 where rl: "retry_loop prov ic 0
             (s\<lparr>isProcessing := True,
                userContext := userContext s @ [\<lparr>role = r, content = t\<rparr>]\<rparr>) = (s3, r3)"
    by (metis surj_pair)
  show ?thesis
  proof (cases r3)
    case None
    with assms rl show ?thesis
      by (simp add: completion_def completion_call_def)
  next
    case (Some e)
    with assms rl show ?thesis
      by (simp add: completion_def completion_call_def Let_def)
  qed
qed

lemma retry_loop_userContext:
  "retry_loop prov ic rc s = (s', r) \<Longrightarrow> \<exists>extra. userContext s' = userContext s @ extra"
proof (induction prov ic rc s arbitrary: s' r rule: retry_loop.induct)
  case (1 prov ic rc s)
  show ?case
  proof (cases "rc < maxRetries s")
    case False
    with "1.prems" have "s' = s" by (simp add: retry_loop.simps [of prov ic rc s])
    then show ?thesis by simp
  next
    case True
    obtain s1 r1 where ab: "attempt_body prov ic rc s = (s1, r1)"
      by (cases "attempt_body prov ic rc s")
    from attempt_body_effect [OF ab] obtain extra1 where
      u1: "userContext s1 = userContext s @ extra1"
      by (cases "r1 = None") auto
    show ?thesis
    proof (cases r1)
      case None
      with True ab "1.prems" have "s' = s1" by (simp add: retry_loop.simps [of prov ic rc s])
      with u1 show ?thesis by simp
    next
      case (Some e)
      show ?thesis
      proof (cases "rc + 1 = maxRetries s1")
        case last: True
        with True ab Some "1.prems" have "s' = s1"
          by (simp add: retry_loop.simps [of prov ic rc s])
        with u1 show ?thesis by simp
      next
        case again: False
        with True ab Some "1.prems"
        have rl: "retry_loop prov ic (rc + 1)
                (s1\<lparr>slept := slept s1 @ [2 ^ (rc + 1) * 1000]\<rparr>) = (s', r)"
          by (simp add: retry_loop.simps [of prov ic rc s])
        from "1.IH" [OF True ab [symmetric] Some again rl] obtain extra2 where
          "userContext s' = userContext s1 @ extra2" by auto
        with u1 show ?thesis by simp
      qed
    qed
  qed
qed

lemma completion_userContext:
  "\<exists>extra. userContext (completion prov t ic r s) = userContext s @ extra"
proof (cases "isProcessing s")
  case True
  then show ?thesis by (simp add: completion_def completion_call_def)
next
  case False
  obtain s3 r3 where rl: "retry_loop prov ic 0
             (s\<lparr>isProcessing := True,
                userContext := userContext s @ [\<lparr>role = r, content = t\<rparr>]\<rparr>) = (s3, r3)"
    by (metis surj_pair)
  from retry_loop_userContext [OF rl] obtain extra where
    "userContext s3 = (userContext s @ [\<lparr>role = r, content = t\<rparr>]) @ extra"
    by auto
  with rl show ?thesis
    by (cases r3) (simp_all add: completion_idle [OF False])
qed

lemma reachable_seed:
  "reachable s \<Longrightarrow> take 2 (userContext s) = [system_turn, greeting_turn]"
proof (induction rule: reachable.induct)
  case reachable_constructor
  show ?case by (simp add: constructor_def)
next
  case (reachable_addListener s eventName)
  then show ?case by (simp add: addListener_def)
next
  case (reachable_setCallSid s sid)
  then show ?case by (simp add: setCallSid_def)
next
  case (reachable_resetContext s)
  then show ?case by (simp add: resetContext_def)
next
  case (reachable_cleanup s)
  then show ?case by (simp add: cleanup_def removeAllListeners_def resetContext_def)
next
  case (reachable_completion s prov t ic r)
  obtain extra where "userContext (completion prov t ic r s) = userContext s @ extra"
    using completion_userContext by blast
  moreover have "2 \<le> length (userContext s)"
  proof -
    have "length (take 2 (userContext s)) = 2"
      unfolding reachable_completion.IH by simp
    then show ?thesis by simp
  qed
  ultimately show ?case using reachable_completion.IH by simp
qed

section \<open>The loop against the emission rule\<close>

lemma replies_from_append:
  "replies_from i sid n (xs @ ys)
     = replies_from i sid n xs @ replies_from (i + length xs) sid n ys"
  by (induction xs arbitrary: i) simp_all

lemma boundary_chunk_buffer:
  assumes "slice_last (js_trim b) \<noteq> [bullet]" and "has_choice ch"
  shows "(slice_last (js_trim (b @ chunk_content ch)) = [bullet] \<or> stop_signal ch)
           \<longleftrightarrow> boundary_chunk ch"
proof -
  from assms(2) obtain c0 others where c: "choices ch = c0 # others"
    by (cases "choices ch") (auto simp: has_choice_def)
  show ?thesis
    using boundary_test_buffer [OF assms(1), of "chunk_content ch"] c
    by (simp add: boundary_chunk_def stop_signal_def)
qed

lemma chunk_body_boundary:
  assumes "has_choice ch"
  shows "chunk_body ic ch (l, s) =
     (if boundary_chunk ch
      then (l\<lparr>completeResponse := completeResponse l @ chunk_content ch,
              partialResponse := []\<rparr>,
            s\<lparr>emitted := emitted s @
                 [GptReply (partialResponseIndex s)
                    (js_trim (partialResponse l @ chunk_content ch)) (callSid s) ic],
              partialResponseIndex := partialResponseIndex s + 1\<rparr>, None)
      else (l\<lparr>completeResponse := completeResponse l @ chunk_content ch,
              partialResponse := partialResponse l @ chunk_content ch\<rparr>, s, None))"
proof -
  from assms obtain c0 others where c: "choices ch = c0 # others"
    by (cases "choices ch") (auto simp: has_choice_def)
  then show ?thesis
    by (simp add: chunk_body_def boundary_chunk_def Let_def)
qed

lemma for_await_segments:
  assumes "slice_last (js_trim (partialResponse l)) \<noteq> [bullet]"
    and "for_await ic cs (l, s) = (l', s', r)"
  shows "emitted s' = emitted s @
           replies_from (partialResponseIndex s) (callSid s) ic
             (buffer_segments (partialResponse l) (delivered cs))"
  using assms
proof (induction cs arbitrary: l s)
  case Nil
  then show ?case by (simp add: delivered_def)
next
  case (Cons ch rest)
  show ?case
  proof (cases "has_choice ch")
    case False
    then have "chunk_body ic ch (l, s) = (l, s, Some TypeError)"
      by (simp add: chunk_body_def has_choice_def)
    with Cons.prems(2) have "s' = s" by simp
    with False show ?thesis by (simp add: delivered_def)
  next
    case True
    note cb = chunk_body_boundary [OF True, of ic l s]
    note test = boundary_chunk_buffer [OF Cons.prems(1) True]
    have del: "delivered (ch # rest) = ch # delivered rest"
      using True by (simp add: delivered_def)
    show ?thesis
    proof (cases "boundary_chunk ch")
      case b: True
      define l1 where "l1 = l\<lparr>completeResponse := completeResponse l @ chunk_content ch,
              partialResponse := []\<rparr>"
      define s1 where "s1 = s\<lparr>emitted := emitted s @
                 [GptReply (partialResponseIndex s)
                    (js_trim (partialResponse l @ chunk_content ch)) (callSid s) ic],
              partialResponseIndex := partialResponseIndex s + 1\<rparr>"
      from cb b Cons.prems(2) have fa: "for_await ic rest (l1, s1) = (l', s', r)"
        by (simp add: l1_def s1_def)
      have inv1: "slice_last (js_trim (partialResponse l1)) \<noteq> [bullet]"
        by (simp add: l1_def slice_last_trim_Nil)
      from Cons.IH [OF inv1 fa]
      have "emitted s' = emitted s1 @
           replies_from (partialResponseIndex s1) (callSid s1) ic
             (buffer_segments (partialResponse l1) (delivered rest))" .
      then show ?thesis
        using b test by (simp add: del l1_def s1_def)
    next
      case nb: False
      define l1 where "l1 = l\<lparr>completeResponse := completeResponse l @ chunk_content ch,
              partialResponse := partialResponse l @ chunk_content ch\<rparr>"
      from cb nb Cons.prems(2) have fa: "for_await ic rest (l1, s) = (l', s', r)"
        by (simp add: l1_def)
      have inv1: "slice_last (js_trim (partialResponse l1)) \<noteq> [bullet]"
        using nb test by (simp add: l1_def)
      from Cons.IH [OF inv1 fa]
      have "emitted s' = emitted s @
           replies_from (partialResponseIndex s) (callSid s) ic
             (buffer_segments (partialResponse l1) (delivered rest))" .
      then show ?thesis
        using nb test by (simp add: del l1_def)
    qed
  qed
qed

lemma attempt_body_segments:
  "emitted (fst (attempt_body prov ic n s)) = emitted s @
     replies_from (partialResponseIndex s) (callSid s) ic
       (buffer_segments [] (delivered (fst (prov n (userContext s)))))"
proof -
  obtain cs fin where p: "prov n (userContext s) = (cs, fin)"
    by (cases "prov n (userContext s)")
  obtain l1 s1 r1 where fa: "for_await ic cs (fresh_locals, s) = (l1, s1, r1)"
    by (metis prod_cases3)
  have inv: "slice_last (js_trim (partialResponse fresh_locals)) \<noteq> [bullet]"
    by (simp add: fresh_locals_def slice_last_trim_Nil)
  from for_await_segments [OF inv fa]
  have seg: "emitted s1 = emitted s @
           replies_from (partialResponseIndex s) (callSid s) ic
             (buffer_segments [] (delivered cs))"
    by (simp add: fresh_locals_def)
  have "emitted (fst (attempt_body prov ic n s)) = emitted s1"
    using p fa by (simp add: attempt_body_def split: option.splits)
  with seg p show ?thesis by simp
qed

lemma retry_loop_emitted:
  "retry_loop prov ic rc s = (s', r) \<Longrightarrow> \<exists>later. emitted s' = emitted s @ later"
proof (induction prov ic rc s arbitrary: s' r rule: retry_loop.induct)
  case (1 prov ic rc s)
  show ?case
  proof (cases "rc < maxRetries s")
    case False
    with "1.prems" have "s' = s" by (simp add: retry_loop.simps [of prov ic rc s])
    then show ?thesis by simp
  next
    case True
    obtain s1 r1 where ab: "attempt_body prov ic rc s = (s1, r1)"
      by (cases "attempt_body prov ic rc s")
    from attempt_body_effect [OF ab] obtain segs1 where
      e1: "emitted s1 = emitted s @ segs1"
      by auto
    show ?thesis
    proof (cases r1)
      case None
      with True ab "1.prems" have "s' = s1" by (simp add: retry_loop.simps [of prov ic rc s])
      with e1 show ?thesis by simp
    next
      case (Some e)
      show ?thesis
      proof (cases "rc + 1 = maxRetries s1")
        case last: True
        with True ab Some "1.prems" have "s' = s1"
          by (simp add: retry_loop.simps [of prov ic rc s])
        with e1 show ?thesis by simp
      next
        case again: False
        with True ab Some "1.prems"
        have rl: "retry_loop prov ic (rc + 1)
                (s1\<lparr>slept := slept s1 @ [2 ^ (rc + 1) * 1000]\<rparr>) = (s', r)"
          by (simp add: retry_loop.simps [of prov ic rc s])
        from "1.IH" [OF True ab [symmetric] Some again rl] obtain later where
          "emitted s' = emitted s1 @ later" by auto
        with e1 show ?thesis by simp
      qed
    qed
  qed
qed

lemma retry_loop_first_attempt:
  assumes "0 < maxRetries s" and "retry_loop prov ic 0 s = (s', r)"
  shows "\<exists>later. emitted s' = emitted (fst (attempt_body prov ic 0 s)) @ later
          \<and> (attempt_error (prov 0 (userContext s)) = None \<longrightarrow> later = [] \<and> r = None)"
proof -
  obtain s1 r1 where ab: "attempt_body prov ic 0 s = (s1, r1)"
    by (cases "attempt_body prov ic 0 s")
  from attempt_body_effect [OF ab] have r1: "r1 = attempt_error (prov 0 (userContext s))"
    by auto
  show ?thesis
  proof (cases r1)
    case None
    with assms ab have "s' = s1" "r = None" by (simp_all add: retry_loop.simps [of prov ic 0 s])
    with ab show ?thesis by simp
  next
    case (Some e)
    show ?thesis
    proof (cases "0 + 1 = maxRetries s1")
      case True
      with assms ab Some have "s' = s1"
        by (simp add: retry_loop.simps [of prov ic 0 s])
      with ab Some r1 show ?thesis by simp
    next
      case False
      with assms ab Some
      have rl: "retry_loop prov ic (0 + 1)
                (s1\<lparr>slept := slept s1 @ [2 ^ (0 + 1) * 1000]\<rparr>) = (s', r)"
        by (simp add: retry_loop.simps [of prov ic 0 s])
      from retry_loop_emitted [OF rl] obtain later where
        "emitted s' = emitted s1 @ later" by auto
      with ab Some r1 show ?thesis by simp
    qed
  qed
qed


section \<open>The claims\<close>

subsection \<open>C1: where the loop emits\<close>

text \<open>
  Claim C1. For every stream of chunks that an attempt of \<open>completion\<close> consumes, the
  replies emitted are exactly those of the emission rule: going through the fragments
  from an empty partial buffer, one reply at each point where the trimmed buffer ends on
  the marker or the chunk carries the stop signal, and at no other point, a marker inside
  the buffer included; each reply carries the trimmed buffer, the replies are numbered
  from the current index, and the buffer is cleared after each of them. This holds for
  every attempt, for the chunks it delivers before a throw; a call of \<open>completion\<close> on a
  session that is not busy emits these replies for its first attempt first, and nothing
  else when that attempt succeeds.
\<close>

theorem emission_points:
  "emitted (fst (attempt_body prov ic n s)) = emitted s @
     replies_from (partialResponseIndex s) (callSid s) ic
       (buffer_segments [] (delivered (fst (prov n (userContext s)))))
   \<and> (\<not> isProcessing s \<and> 0 < maxRetries s
      \<longrightarrow> (\<exists>later.
            emitted (completion prov t ic r s) = emitted s @
              replies_from (partialResponseIndex s) (callSid s) ic
                (buffer_segments []
                   (delivered (fst (prov 0 (userContext s @ [\<lparr>role = r, content = t\<rparr>])))))
              @ later
            \<and> (attempt_error (prov 0 (userContext s @ [\<lparr>role = r, content = t\<rparr>])) = None
               \<longrightarrow> later = []
                 \<and> delivered (fst (prov 0 (userContext s @ [\<lparr>role = r, content = t\<rparr>])))
                     = fst (prov 0 (userContext s @ [\<lparr>role = r, content = t\<rparr>])))))"
proof (intro conjI impI)
  show "emitted (fst (attempt_body prov ic n s)) = emitted s @
     replies_from (partialResponseIndex s) (callSid s) ic
       (buffer_segments [] (delivered (fst (prov n (userContext s)))))"
    by (rule attempt_body_segments)
next
  assume h: "\<not> isProcessing s \<and> 0 < maxRetries s"
  define msgs where "msgs = userContext s @ [\<lparr>role = r, content = t\<rparr>]"
  define s2 where "s2 = s\<lparr>isProcessing := True,
                userContext := userContext s @ [\<lparr>role = r, content = t\<rparr>]\<rparr>"
  have s2: "userContext s2 = msgs"
    "maxRetries s2 = maxRetries s" "emitted s2 = emitted s"
    "partialResponseIndex s2 = partialResponseIndex s" "callSid s2 = callSid s"
    by (simp_all add: s2_def msgs_def)
  define texts where "texts = buffer_segments [] (delivered (fst (prov 0 msgs)))"
  obtain s3 r3 where rl: "retry_loop prov ic 0 s2 = (s3, r3)"
    by (cases "retry_loop prov ic 0 s2")
  have lt: "0 < maxRetries s2" using h s2 by simp
  from retry_loop_first_attempt [where prov = prov and s = s2 and s' = s3 and r = r3
      and ic = ic, OF lt rl]
  obtain later where
    both: "emitted s3 = emitted (fst (attempt_body prov ic 0 s2)) @ later
      \<and> (attempt_error (prov 0 (userContext s2)) = None \<longrightarrow> later = [] \<and> r3 = None)"
    by (rule exE)
  from both have e3: "emitted s3 = emitted (fst (attempt_body prov ic 0 s2)) @ later"
    by (rule conjunct1)
  from both
  have ok: "attempt_error (prov 0 (userContext s2)) = None \<longrightarrow> later = [] \<and> r3 = None"
    by (rule conjunct2)
  have seg: "emitted (fst (attempt_body prov ic 0 s2)) = emitted s @
     replies_from (partialResponseIndex s) (callSid s) ic texts"
    using attempt_body_segments [of prov ic 0 s2] s2 by (simp add: texts_def)
  have all: "attempt_error (prov 0 msgs) = None \<longrightarrow> delivered (fst (prov 0 msgs)) = fst (prov 0 msgs)"
  proof
    assume a: "attempt_error (prov 0 msgs) = None"
    obtain cs fin where p: "prov 0 msgs = (cs, fin)" by (cases "prov 0 msgs")
    from a p have "list_all has_choice cs"
      by (auto simp: attempt_error_def split: if_splits)
    then show "delivered (fst (prov 0 msgs)) = fst (prov 0 msgs)"
      using p by (simp add: delivered_all)
  qed
  have idle: "\<not> isProcessing s" using h by simp
  have "\<exists>tail. emitted (completion prov t ic r s) = emitted s3 @ tail
          \<and> (r3 = None \<longrightarrow> tail = [])"
  proof (cases r3)
    case None
    with rl have "emitted (completion prov t ic r s) = emitted s3 @ []"
      by (simp add: completion_idle [OF idle] s2_def [symmetric])
    with None show ?thesis by blast
  next
    case (Some e)
    with rl have "emitted (completion prov t ic r s) = emitted s3 @
        ErrorEvent e #
          (if str ''error'' \<in> set (listeners s3)
           then [GptReply (partialResponseIndex s3) fallback (callSid s3) ic] else [])"
      by (simp add: completion_idle [OF idle] s2_def [symmetric])
    with Some show ?thesis by blast
  qed
  then obtain tail where
    c: "emitted (completion prov t ic r s) = emitted s3 @ tail" and tl: "r3 = None \<longrightarrow> tail = []"
    by blast
  have 1: "emitted (completion prov t ic r s) = emitted s @
          replies_from (partialResponseIndex s) (callSid s) ic texts @ (later @ tail)"
    using c e3 seg by simp
  have 2: "attempt_error (prov 0 msgs) = None \<longrightarrow>
      later @ tail = [] \<and> delivered (fst (prov 0 msgs)) = fst (prov 0 msgs)"
    using ok tl all s2 by simp
  from 1 2 have "\<exists>later.
            emitted (completion prov t ic r s) = emitted s @
              replies_from (partialResponseIndex s) (callSid s) ic texts @ later
            \<and> (attempt_error (prov 0 msgs) = None
               \<longrightarrow> later = [] \<and> delivered (fst (prov 0 msgs)) = fst (prov 0 msgs))"
    by (intro exI [of _ "later @ tail"] conjI)
  then show "\<exists>later.
            emitted (completion prov t ic r s) = emitted s @
              replies_from (partialResponseIndex s) (callSid s) ic
                (buffer_segments []
                   (delivered (fst (prov 0 (userContext s @ [\<lparr>role = r, content = t\<rparr>])))))
              @ later
            \<and> (attempt_error (prov 0 (userContext s @ [\<lparr>role = r, content = t\<rparr>])) = None
               \<longrightarrow> later = []
                 \<and> delivered (fst (prov 0 (userContext s @ [\<lparr>role = r, content = t\<rparr>])))
                     = fst (prov 0 (userContext s @ [\<lparr>role = r, content = t\<rparr>])))"
    unfolding texts_def msgs_def .
qed

theorem emission_points_witness:
  "buffer_segments []
     [fragment (str ''ab''), fragment (str ''c'' @ [bullet]),
      fragment (str ''x'' @ [bullet] @ str ''y''), fragment_stop (str ''z'')]
     = [str ''abc'' @ [bullet], str ''x'' @ [bullet] @ str ''yz'']
   \<and> emitted (completion
        (replying [fragment (str ''ab''), fragment (str ''c'' @ [bullet]),
                   fragment (str ''x'' @ [bullet] @ str ''y''), fragment_stop (str ''z'')])
        (str ''hi'') 1 (str ''user'') constructor)
     = [GptReply 0 (str ''abc'' @ [bullet]) None 1,
        GptReply 1 (str ''x'' @ [bullet] @ str ''yz'') None 1]"
proof -
  define cs where "cs = [fragment (str ''ab''), fragment (str ''c'' @ [bullet]),
      fragment (str ''x'' @ [bullet] @ str ''y''), fragment_stop (str ''z'')]"
  have bs: "buffer_segments [] cs = [str ''abc'' @ [bullet], str ''x'' @ [bullet] @ str ''yz'']"
    by (simp add: cs_def chunk_content_def fragment_def fragment_stop_def stop_signal_def
        js_trim_def js_whitespace_def slice_last_def str_def bullet_def)
  have idle: "\<not> isProcessing constructor \<and> 0 < maxRetries constructor"
    by (simp add: constructor_def)
  have ok: "attempt_error (replying cs 0 msgs) = None" for msgs
    by (simp add: attempt_error_def replying_def cs_def has_choice_def fragment_def
        fragment_stop_def)
  have p: "fst (replying cs 0 msgs) = cs" for msgs
    by (simp add: replying_def)
  from emission_points [where s = constructor and prov = "replying cs" and t = "str ''hi''"
      and ic = 1 and r = "str ''user''"] idle
  have "emitted (completion (replying cs) (str ''hi'') 1 (str ''user'') constructor)
      = emitted constructor @
          replies_from (partialResponseIndex constructor) (callSid constructor) 1
            (buffer_segments [] cs)"
    by (auto simp: ok p)
  then have "emitted (completion (replying cs) (str ''hi'') 1 (str ''user'') constructor)
      = [GptReply 0 (str ''abc'' @ [bullet]) None 1,
         GptReply 1 (str ''x'' @ [bullet] @ str ''yz'') None 1]"
    unfolding bs by (simp add: constructor_def)
  with bs show ?thesis unfolding cs_def by simp
qed

subsection \<open>C2: the stream "ab", "c" with the marker, "def" with the marker\<close>

text \<open>
  Claim C2, as stated, does not hold: \<open>trim\<close> strips whitespace only, so the marker
  stays at the end of each emitted text. With the stop signal on the chunk of the last
  fragment the session emits the texts "abc" and "def" each followed by the marker, and
  with the stop signal on a further chunk without content it emits a third, empty text.
  In neither case are the events those of the claim.
\<close>

theorem boundary_example_counterexample:
  "emitted (completion
      (replying [fragment (str ''ab''), fragment (str ''c'' @ [bullet]),
                 fragment_stop (str ''def'' @ [bullet])])
      (str ''hi'') 1 (str ''user'') constructor)
    \<noteq> [GptReply 0 (str ''abc'') None 1, GptReply 1 (str ''def'') None 1]
   \<and> emitted (completion
      (replying [fragment (str ''ab''), fragment (str ''c'' @ [bullet]),
                 fragment (str ''def'' @ [bullet]), fragment_stop []])
      (str ''hi'') 1 (str ''user'') constructor)
    \<noteq> [GptReply 0 (str ''abc'') None 1, GptReply 1 (str ''def'') None 1]"
  by (simp add: run)

text \<open>
  Claim C2, amended. For the fragments "ab", "c" with the marker and "def" with the
  marker, the last chunk carrying the stop signal, a session that is not busy emits
  exactly two replies, with consecutive indices, whose texts are "abc" followed by the
  marker and "def" followed by the marker: each is the trimmed partial buffer, and the
  second does not repeat the first, the buffer having been cleared in between. When the
  stop signal comes on a further chunk without content, a third reply with the empty
  text follows.
\<close>

theorem boundary_example:
  assumes "\<not> isProcessing s" and "0 < maxRetries s"
  shows "emitted (completion
      (replying [fragment (str ''ab''), fragment (str ''c'' @ [bullet]),
                 fragment_stop (str ''def'' @ [bullet])]) t ic r s)
    = emitted s @
       [GptReply (partialResponseIndex s) (str ''abc'' @ [bullet]) (callSid s) ic,
        GptReply (partialResponseIndex s + 1) (str ''def'' @ [bullet]) (callSid s) ic]
   \<and> emitted (completion
      (replying [fragment (str ''ab''), fragment (str ''c'' @ [bullet]),
                 fragment (str ''def'' @ [bullet]), fragment_stop []]) t ic r s)
    = emitted s @
       [GptReply (partialResponseIndex s) (str ''abc'' @ [bullet]) (callSid s) ic,
        GptReply (partialResponseIndex s + 1) (str ''def'' @ [bullet]) (callSid s) ic,
        GptReply (partialResponseIndex s + 2) [] (callSid s) ic]"
  using assms by (simp add: run)

theorem boundary_example_witness:
  "emitted (completion
      (replying [fragment (str ''ab''), fragment (str ''c'' @ [bullet]),
                 fragment_stop (str ''def'' @ [bullet])])
      (str ''hi'') 1 (str ''user'') constructor)
    = [GptReply 0 (str ''abc'' @ [bullet]) None 1, GptReply 1 (str ''def'' @ [bullet]) None 1]"
proof -
  have idle: "\<not> isProcessing constructor" and m: "0 < maxRetries constructor"
    by (simp_all add: constructor_def)
  show ?thesis
    using boundary_example [where s = constructor and t = "str ''hi''" and ic = 1
        and r = "str ''user''", OF idle m]
    by (simp add: constructor_def)
qed

subsection \<open>C3: how many replies, and their indices\<close>

text \<open>
  Claim C3, as stated, does not hold: the loop looks only at the end of each trimmed
  fragment, so a marker inside a fragment starts no reply. The stream of the single
  fragment "a", marker, "b" with the stop signal contains one marker and does not end
  on it, and one reply is emitted, not two.
\<close>

theorem segment_count_counterexample:
  "count_list (str ''a'' @ [bullet] @ str ''b'') bullet = 1
   \<and> \<not> ends_with_marker (str ''a'' @ [bullet] @ str ''b'')
   \<and> length (emitted (completion
        (replying (stop_terminated [str ''a'' @ [bullet] @ str ''b'']))
        (str ''hi'') 1 (str ''user'') constructor)) = 1"
  by (simp add: run ends_with_marker_def)

text \<open>
  Claim C3, amended. Let \<open>k\<close> of the fragments of a stream have a trimmed text that ends
  on the marker, the chunk of the last fragment carrying the stop signal. Then a session
  that is not busy emits exactly \<open>k + 1\<close> replies, or exactly \<open>k\<close> if the last fragment
  is one of those \<open>k\<close>, and their indices are consecutive, starting from the current
  \<open>partialResponseIndex\<close> of the session.
\<close>

theorem segment_count_and_order:
  assumes "\<not> isProcessing s" and "0 < maxRetries s" and "fs \<noteq> []"
    and "prov 0 (userContext s @ [\<lparr>role = r, content = t\<rparr>]) = (stop_terminated fs, None)"
  shows "\<exists>segs. emitted (completion prov t ic r s) = emitted s @ segs
          \<and> length segs =
              (if ends_with_marker (last fs) then length (filter ends_with_marker fs)
               else length (filter ends_with_marker fs) + 1)
          \<and> map reply_index segs =
              map Some [partialResponseIndex s ..< partialResponseIndex s + length segs]"
proof -
  define s2 where "s2 = s\<lparr>isProcessing := True,
                userContext := userContext s @ [\<lparr>role = r, content = t\<rparr>]\<rparr>"
  have s2: "userContext s2 = userContext s @ [\<lparr>role = r, content = t\<rparr>]"
    "maxRetries s2 = maxRetries s" "emitted s2 = emitted s"
    "partialResponseIndex s2 = partialResponseIndex s"
    by (simp_all add: s2_def)
  have lt: "0 < maxRetries s2" using assms(2) s2 by simp
  have ok: "attempt_error (prov 0 (userContext s2)) = None"
    using assms(4) s2 by (simp add: attempt_error_def stop_terminated_all)
  from retry_success [where rc=0 and s=s2 and prov=prov and ic=ic, OF lt ok]
  obtain segs where
    rl: "retry_loop prov ic 0 s2 =
            (s2\<lparr>emitted := emitted s2 @ segs,
               partialResponseIndex := partialResponseIndex s2 + length segs,
               userContext := userContext s2 @ [assistant_turn (fst (prov 0 (userContext s2)))]\<rparr>,
             None)"
    and num: "numbered_from (partialResponseIndex s2) segs"
    and len: "length segs = boundaries (prov 0 (userContext s2))"
    by blast
  have em: "emitted (completion prov t ic r s) = emitted s @ segs"
    using rl s2 by (simp add: completion_idle [OF assms(1)] s2_def [symmetric])
  have "filter ends_with_marker fs
         = filter ends_with_marker (butlast fs) @ filter ends_with_marker [last fs]"
    using assms(3) by (metis append_butlast_last_id filter_append)
  then have cnt: "length (filter ends_with_marker fs)
         = length (filter ends_with_marker (butlast fs))
            + (if ends_with_marker (last fs) then 1 else 0)"
    by simp
  have "length segs = length (filter ends_with_marker (butlast fs)) + 1"
    using len assms(4) s2 by (simp add: boundaries_stop_terminated)
  with cnt have len': "length segs =
              (if ends_with_marker (last fs) then length (filter ends_with_marker fs)
               else length (filter ends_with_marker fs) + 1)"
    by simp
  from num s2 have "map reply_index segs =
              map Some [partialResponseIndex s ..< partialResponseIndex s + length segs]"
    by (simp add: numbered_from_def)
  with em len' show ?thesis by blast
qed


theorem segment_count_and_order_witness:
  "length (emitted (completion
      (replying (stop_terminated [str ''ab'', str ''c'' @ [bullet], str ''def'' @ [bullet]]))
      (str ''hi'') 1 (str ''user'') constructor)) = 2
   \<and> map reply_index (emitted (completion
      (replying (stop_terminated [str ''ab'', str ''c'' @ [bullet], str ''def'' @ [bullet]]))
      (str ''hi'') 1 (str ''user'') constructor)) = [Some 0, Some 1]"
proof -
  have idle: "\<not> isProcessing constructor" and m: "0 < maxRetries constructor"
    by (simp_all add: constructor_def)
  have ne: "[str ''ab'', str ''c'' @ [bullet], str ''def'' @ [bullet]] \<noteq> []"
    by simp
  have p: "replying (stop_terminated [str ''ab'', str ''c'' @ [bullet], str ''def'' @ [bullet]])
      0 (userContext constructor @ [\<lparr>role = str ''user'', content = str ''hi''\<rparr>])
      = (stop_terminated [str ''ab'', str ''c'' @ [bullet], str ''def'' @ [bullet]], None)"
    by (simp add: replying_def)
  have e: "\<not> ends_with_marker (str ''ab'')" "ends_with_marker (str ''c'' @ [bullet])"
    "ends_with_marker (str ''def'' @ [bullet])"
    by (simp_all add: ends_with_marker_def js_trim_def js_whitespace_def slice_last_def
        str_def bullet_def)
  from segment_count_and_order [where s = constructor and ic = 1 and t = "str ''hi''"
      and r = "str ''user''"
      and fs = "[str ''ab'', str ''c'' @ [bullet], str ''def'' @ [bullet]]"
      and prov = "replying (stop_terminated [str ''ab'', str ''c'' @ [bullet], str ''def'' @ [bullet]])",
      OF idle m ne p]
  obtain segs where
    "emitted (completion
      (replying (stop_terminated [str ''ab'', str ''c'' @ [bullet], str ''def'' @ [bullet]]))
      (str ''hi'') 1 (str ''user'') constructor) = emitted constructor @ segs"
    "length segs = 2"
    "map reply_index segs =
       map Some [partialResponseIndex constructor ..< partialResponseIndex constructor + length segs]"
    using e by auto
  then show ?thesis by (simp add: constructor_def)
qed

subsection \<open>C4: retries and the waits between them\<close>

text \<open>
  Claim C4, as stated, does not hold: no wait of eight seconds ever happens. When all
  three attempts fail, the session has waited 2000 and 4000 milliseconds; the third
  failure is thrown on to the outer handler without a wait.
\<close>

theorem retry_backoff_counterexample:
  "slept (completion always_failing (str ''hi'') 1 (str ''user'') constructor) = [2000, 4000]
   \<and> errors_of (emitted (completion always_failing (str ''hi'') 1 (str ''user'') constructor))
       = [ProviderError 2]"
  by (simp add: run)

text \<open>
  Claim C4, amended. With \<open>maxRetries = 3\<close> a call of \<open>completion\<close> on a session that is
  not busy makes at most three attempts, each for the transcript with the new turn. It
  waits 2000 milliseconds after a failed first attempt and 4000 milliseconds after a
  failed second attempt, and nothing after a failed third attempt, whose error is thrown
  on to the outer handler and emitted as the one error event of the call. If an attempt
  succeeds, no error event is emitted and the transcript gains, after the new turn,
  exactly one assistant turn, whose content is the fragments of the successful attempt;
  in particular a provider that fails twice and then succeeds makes the session wait
  2000 and then 4000 milliseconds.
\<close>

theorem retry_backoff:
  assumes idle: "\<not> isProcessing s" and m: "maxRetries s = 3"
    and msgs: "msgs = userContext s @ [\<lparr>role = r, content = t\<rparr>]"
    and s': "s' = completion prov t ic r s"
  shows "case (attempt_error (prov 0 msgs), attempt_error (prov 1 msgs),
               attempt_error (prov 2 msgs)) of
           (None, _, _) \<Rightarrow>
              slept s' = slept s
              \<and> userContext s' = msgs @ [assistant_turn (fst (prov 0 msgs))]
              \<and> errors_of (emitted s') = errors_of (emitted s)
         | (Some e0, None, _) \<Rightarrow>
              slept s' = slept s @ [2000]
              \<and> userContext s' = msgs @ [assistant_turn (fst (prov 1 msgs))]
              \<and> errors_of (emitted s') = errors_of (emitted s)
         | (Some e0, Some e1, None) \<Rightarrow>
              slept s' = slept s @ [2000, 4000]
              \<and> userContext s' = msgs @ [assistant_turn (fst (prov 2 msgs))]
              \<and> errors_of (emitted s') = errors_of (emitted s)
         | (Some e0, Some e1, Some e2) \<Rightarrow>
              slept s' = slept s @ [2000, 4000]
              \<and> userContext s' = msgs
              \<and> errors_of (emitted s') = errors_of (emitted s) @ [e2]"
proof -
  define s2 where "s2 = s\<lparr>isProcessing := True,
                userContext := userContext s @ [\<lparr>role = r, content = t\<rparr>]\<rparr>"
  have s2: "userContext s2 = msgs" "maxRetries s2 = 3" "emitted s2 = emitted s"
    "slept s2 = slept s"
    using m msgs by (simp_all add: s2_def)
  note unfold = s' completion_idle [OF idle] s2_def [symmetric]
  show ?thesis
  proof (cases "attempt_error (prov 0 msgs)")
    case None
    have lt: "0 < maxRetries s2" using s2 by simp
    from None have ok: "attempt_error (prov 0 (userContext s2)) = None" using s2 by simp
    from retry_success [where rc=0 and s=s2 and prov=prov and ic=ic, OF lt ok]
    obtain segs where
      rl: "retry_loop prov ic 0 s2 =
            (s2\<lparr>emitted := emitted s2 @ segs,
               partialResponseIndex := partialResponseIndex s2 + length segs,
               userContext := userContext s2 @ [assistant_turn (fst (prov 0 (userContext s2)))]\<rparr>,
             None)"
      and num: "numbered_from (partialResponseIndex s2) segs"
      by blast
    from rl s2 numbered_from_no_errors [OF num] None show ?thesis
      by (simp add: unfold errors_of_append)
  next
    case e0: (Some e0)
    then have f0: "attempt_error (prov 0 (userContext s2)) = Some e0" using s2 by simp
    show ?thesis
    proof (cases "attempt_error (prov 1 msgs)")
      case None
      then have ok: "attempt_error (prov 1 (userContext s2)) = None" using s2 by simp
      from retry_fail_success [where prov=prov and s=s2 and ic=ic, OF s2(2) f0 ok]
      obtain segs where
        rl: "retry_loop prov ic 0 s2 =
            (s2\<lparr>emitted := emitted s2 @ segs,
               partialResponseIndex := partialResponseIndex s2 + length segs,
               slept := slept s2 @ [2000],
               userContext := userContext s2 @ [assistant_turn (fst (prov 1 (userContext s2)))]\<rparr>,
             None)"
        and num: "numbered_from (partialResponseIndex s2) segs"
        by blast
      from rl s2 numbered_from_no_errors [OF num] e0 None show ?thesis
        by (simp add: unfold errors_of_append)
    next
      case e1: (Some e1)
      then have f1: "attempt_error (prov 1 (userContext s2)) = Some e1" using s2 by simp
      show ?thesis
      proof (cases "attempt_error (prov 2 msgs)")
        case None
        then have ok: "attempt_error (prov 2 (userContext s2)) = None" using s2 by simp
        from retry_fail_fail_success [where prov=prov and s=s2 and ic=ic, OF s2(2) f0 f1 ok]
        obtain segs where
          rl: "retry_loop prov ic 0 s2 =
            (s2\<lparr>emitted := emitted s2 @ segs,
               partialResponseIndex := partialResponseIndex s2 + length segs,
               slept := slept s2 @ [2000, 4000],
               userContext := userContext s2 @ [assistant_turn (fst (prov 2 (userContext s2)))]\<rparr>,
             None)"
          and num: "numbered_from (partialResponseIndex s2) segs"
          by blast
        from rl s2 numbered_from_no_errors [OF num] e0 e1 None show ?thesis
          by (simp add: unfold errors_of_append)
      next
        case e2: (Some e2)
        then have f2: "attempt_error (prov 2 (userContext s2)) = Some e2" using s2 by simp
        from retry_fail_fail_fail [where prov=prov and s=s2 and ic=ic, OF s2(2) f0 f1 f2]
        obtain segs where
          rl: "retry_loop prov ic 0 s2 =
            (s2\<lparr>emitted := emitted s2 @ segs,
               partialResponseIndex := partialResponseIndex s2 + length segs,
               slept := slept s2 @ [2000, 4000]\<rparr>, Some e2)"
          and num: "numbered_from (partialResponseIndex s2) segs"
          by blast
        from rl s2 numbered_from_no_errors [OF num] e0 e1 e2 show ?thesis
          by (simp add: unfold errors_of_append)
      qed
    qed
  qed
qed


theorem retry_backoff_witness:
  "slept (completion failing_twice (str ''hi'') 1 (str ''user'') constructor) = [2000, 4000]
   \<and> userContext (completion failing_twice (str ''hi'') 1 (str ''user'') constructor)
       = [system_turn, greeting_turn, \<lparr>role = str ''user'', content = str ''hi''\<rparr>,
          \<lparr>role = str ''assistant'', content = str ''ok''\<rparr>]
   \<and> errors_of (emitted (completion failing_twice (str ''hi'') 1 (str ''user'') constructor))
       = []"
proof -
  have idle: "\<not> isProcessing constructor" and m: "maxRetries constructor = 3"
    by (simp_all add: constructor_def)
  have a: "attempt_error (failing_twice 0 msgs) = Some (ProviderError 0)"
    "attempt_error (failing_twice 1 msgs) = Some (ProviderError 1)"
    "attempt_error (failing_twice (Suc 0) msgs) = Some (ProviderError 1)"
    "attempt_error (failing_twice 2 msgs) = None" for msgs
    by (simp_all add: attempt_error_def failing_twice_def has_choice_def fragment_stop_def)
  have "slept (completion failing_twice (str ''hi'') 1 (str ''user'') constructor)
          = slept constructor @ [2000, 4000]
      \<and> userContext (completion failing_twice (str ''hi'') 1 (str ''user'') constructor)
          = (userContext constructor @ [\<lparr>role = str ''user'', content = str ''hi''\<rparr>])
            @ [assistant_turn (fst (failing_twice 2
                 (userContext constructor @ [\<lparr>role = str ''user'', content = str ''hi''\<rparr>])))]
      \<and> errors_of (emitted (completion failing_twice (str ''hi'') 1 (str ''user'') constructor))
          = errors_of (emitted constructor)"
    using retry_backoff [where s = constructor and prov = failing_twice
        and t = "str ''hi''" and ic = 1 and r = "str ''user''", OF idle m refl refl]
    by (simp add: a)
  then show ?thesis
    by (simp add: constructor_def assistant_turn_def failing_twice_def chunk_content_def
        fragment_stop_def)
qed

subsection \<open>C5: the fallback when every attempt fails\<close>




subsection \<open>C6: a call on a busy session\<close>

text \<open>
  Claim C6. A call of \<open>completion\<close> on a busy session returns the session as it was:
  the transcript, the emitted events and every other field are unchanged.
\<close>

theorem busy_noop:
  "isProcessing s \<Longrightarrow> completion prov t ic r s = s"
  by (simp add: completion_def completion_call_def)


theorem busy_noop_witness:
  "isProcessing (constructor\<lparr>isProcessing := True\<rparr>)
   \<and> completion always_failing (str ''hi'') 1 (str ''user'') (constructor\<lparr>isProcessing := True\<rparr>)
       = constructor\<lparr>isProcessing := True\<rparr>"
  using busy_noop [where s = "constructor\<lparr>isProcessing := True\<rparr>"
      and prov = always_failing and t = "str ''hi''" and ic = 1 and r = "str ''user''"]
  by simp

subsection \<open>C7: the index after the fallback reply\<close>

text \<open>
  Claim C7. The loop raises \<open>partialResponseIndex\<close> after each reply it emits, but the
  outer handler does not raise it after the fallback reply. After a call whose attempts
  all fail, on a session with a listener of the error event, the next call therefore
  emits its first reply under the index of the fallback reply: here both carry index 0.
\<close>

theorem fallback_index_reused:
  "emitted (completion (replying [fragment_stop (str ''ok'')]) (str ''hi'') 2 (str ''user'')
             (completion always_failing (str ''hi'') 1 (str ''user'')
                (addListener (str ''error'') constructor)))
   = [ErrorEvent (ProviderError 2), GptReply 0 fallback None 1, GptReply 0 (str ''ok'') None 2]"
  by (simp add: run)

subsection \<open>C8: the two seed turns\<close>

text \<open>
  Claim C8. In every session that the constructor, the subscriptions of the host and the
  methods produce, the transcript begins with the system turn followed by the greeting
  turn, and
  \<open>resetContext\<close> cuts the transcript back to exactly these two turns.
\<close>

theorem seed_turns_invariant:
  assumes "reachable s"
  shows "take 2 (userContext s) = [system_turn, greeting_turn]
       \<and> userContext (resetContext s) = [system_turn, greeting_turn]
       \<and> length (userContext (resetContext s)) = 2"
  using reachable_seed [OF assms] by (simp add: resetContext_def)


theorem seed_turns_invariant_witness:
  "take 2 (userContext (completion (replying [fragment_stop (str ''ok'')]) (str ''hi'') 1
       (str ''user'') constructor)) = [system_turn, greeting_turn]
   \<and> userContext (resetContext (completion (replying [fragment_stop (str ''ok'')]) (str ''hi'') 1
       (str ''user'') constructor)) = [system_turn, greeting_turn]
   \<and> length (userContext (resetContext (completion (replying [fragment_stop (str ''ok'')])
       (str ''hi'') 1 (str ''user'') constructor))) = 2"
  by (rule seed_turns_invariant [OF reachable_completion [OF reachable_constructor]])

subsection \<open>C9: the busy flag at the end of a call\<close>

text \<open>
  Claim C9. Whatever the provider does, a call of \<open>completion\<close> on a session that is
  not busy ends with \<open>isProcessing\<close> false: after success, after the last failed attempt,
  and after an error thrown in the loop body.
\<close>

theorem busy_cleared:
  "\<not> isProcessing s \<Longrightarrow> \<not> isProcessing (completion prov t ic r s)"
  by (simp add: completion_idle split: prod.splits option.splits)


theorem busy_cleared_witness:
  "\<not> isProcessing constructor
   \<and> \<not> isProcessing (completion always_failing (str ''hi'') 1 (str ''user'') constructor)"
proof -
  have idle: "\<not> isProcessing constructor" by (simp add: constructor_def)
  from busy_cleared [OF idle] idle show ?thesis by simp
qed

subsection \<open>C10: what a failed attempt has emitted\<close>

text \<open>
  Claim C10, as stated, does not hold: replies are emitted while the stream is read and
  are not taken back when the stream fails later. The first attempt below delivers "hi"
  with the marker and then fails; its reply is emitted, the session waits, and the
  second attempt emits the next reply.
\<close>

theorem failed_attempt_emissions_counterexample:
  "attempt_body breaking_off 1 0 constructor
     = (constructor\<lparr>emitted := [GptReply 0 (str ''hi'' @ [bullet]) None 1],
                    partialResponseIndex := 1\<rparr>, Some (ProviderError 0))
   \<and> emitted (completion breaking_off (str ''hi'') 1 (str ''user'') constructor)
     = [GptReply 0 (str ''hi'' @ [bullet]) None 1, GptReply 1 (str ''ok'') None 1]
   \<and> slept (completion breaking_off (str ''hi'') 1 (str ''user'') constructor) = [2000]"
  by (simp add: run)

text \<open>
  Claim C10, amended. An attempt that fails has emitted one reply for each chunk it
  delivered before the failure whose trimmed fragment ends on the marker or which
  carries the stop signal, with consecutive indices, and has left the transcript as it
  was. It has emitted nothing exactly when it delivered no such chunk, as when the
  request itself is refused.
\<close>

theorem failed_attempt_emissions:
  assumes "attempt_body prov ic n s = (s', Some e)"
  shows "\<exists>segs. emitted s' = emitted s @ segs
          \<and> length segs = boundaries (prov n (userContext s))
          \<and> map reply_index segs =
              map Some [partialResponseIndex s ..< partialResponseIndex s + length segs]
          \<and> userContext s' = userContext s"
proof -
  from attempt_body_effect [OF assms] obtain segs where
    "s' = s\<lparr>emitted := emitted s @ segs,
             partialResponseIndex := partialResponseIndex s + length segs,
             userContext := userContext s\<rparr>"
    "numbered_from (partialResponseIndex s) segs"
    "length segs = boundaries (prov n (userContext s))"
    by auto
  then show ?thesis by (intro exI [of _ segs]) (simp add: numbered_from_def)
qed

theorem failed_attempt_emissions_witness:
  "attempt_body breaking_off 1 0 constructor
     = (constructor\<lparr>emitted := [GptReply 0 (str ''hi'' @ [bullet]) None 1],
                    partialResponseIndex := 1\<rparr>, Some (ProviderError 0))
   \<and> boundaries (breaking_off 0 (userContext constructor)) = 1"
proof -
  have h: "attempt_body breaking_off 1 0 constructor
     = (constructor\<lparr>emitted := [GptReply 0 (str ''hi'' @ [bullet]) None 1],
                    partialResponseIndex := 1\<rparr>, Some (ProviderError 0))"
    by (simp add: run)
  from failed_attempt_emissions [OF h] obtain segs where
    "emitted (constructor\<lparr>emitted := [GptReply 0 (str ''hi'' @ [bullet]) None 1],
                    partialResponseIndex := 1\<rparr>) = emitted constructor @ segs"
    "length segs = boundaries (breaking_off 0 (userContext constructor))"
    by blast
  then have "boundaries (breaking_off 0 (userContext constructor)) = 1"
    by (auto simp: constructor_def)
  with h show ?thesis by simp
qed

end
